theory Spec2Isabelle
  imports Main
begin

section \<open>Strings, exceptions and printed output\<close>

text \<open>
  A Python \<open>str\<close> is a sequence of Unicode code points, so a character is the number of
  its code point and a string a list of them. A literal of the source is written
  \<open>py ''...''\<close>. What a call prints is returned by the model as the list of printed lines.
\<close>

type_synonym pychar = nat
type_synonym pystr = "pychar list"

definition py :: "string \<Rightarrow> pystr" where
  "py s = map of_char s"

text \<open>The only exception the module raises is \<open>ValueError\<close>, with its message.\<close>

datatype exn = ValueError pystr

section \<open>Field, Name and Phone\<close>

text \<open>
  \<open>Field\<close> holds one attribute, \<open>value\<close>. The attribute is called \<open>value_f\<close> here
  because \<open>value\<close> is reserved. \<open>Name\<close> and \<open>Phone\<close> add no attribute: their
  constructors check the argument, raise \<open>ValueError\<close> or hand it to \<open>Field.__init__\<close>.
\<close>

record Field =
  value_f :: pystr

definition Field_init :: "pystr \<Rightarrow> Field" where
  "Field_init v = \<lparr>value_f = v\<rparr>"

definition Field_str :: "Field \<Rightarrow> pystr" where
  "Field_str f = value_f f"

text \<open>\<open>Name.__init__\<close>: \<open>not value\<close> is true of the empty string only.\<close>

definition Name :: "pystr \<Rightarrow> exn + Field" where
  "Name v =
     (if v = [] then Inl (ValueError (py ''Name can't be empty''))
      else Inr (Field_init v))"

text \<open>
  \<open>re.fullmatch(r'\d{10}', phone)\<close>. The regular expression \<open>\d{n}\<close> consumes \<open>n\<close>
  characters of the class \<open>\d\<close> one after the other and fails at the first character
  outside the class or at the end of the input; \<open>fullmatch\<close> succeeds when the
  expression matches and nothing of the input is left. The class \<open>\d\<close> is a table of the
  regular expression library (for a \<open>str\<close> pattern the decimal digits of the Unicode
  database of the running interpreter, the ASCII digits among them); it is the parameter
  \<open>d\<close> of the model. "Digit character" means a character of that class throughout.
\<close>

fun match_digits :: "(pychar \<Rightarrow> bool) \<Rightarrow> nat \<Rightarrow> pystr \<Rightarrow> pystr option" where
  "match_digits d 0 s = Some s"
| "match_digits d (Suc n) [] = None"
| "match_digits d (Suc n) (c # s) = (if d c then match_digits d n s else None)"

definition fullmatch_digits :: "(pychar \<Rightarrow> bool) \<Rightarrow> nat \<Rightarrow> pystr \<Rightarrow> bool" where
  "fullmatch_digits d n s = (match_digits d n s = Some [])"

definition Phone :: "(pychar \<Rightarrow> bool) \<Rightarrow> pystr \<Rightarrow> exn + Field" where
  "Phone d phone =
     (if \<not> fullmatch_digits d 10 phone
      then Inl (ValueError (py ''The phone should contain 10 digits''))
      else Inr (Field_init phone))"

text \<open>The ASCII digits \<open>0\<close> to \<open>9\<close> (code points 48 to 57), for the concrete examples.\<close>

definition ascii_digit :: "pychar \<Rightarrow> bool" where
  "ascii_digit c = (48 \<le> c \<and> c \<le> 57)"

section \<open>The object store and Record\<close>

text \<open>
  \<open>Record.edit_phone\<close> assigns to the \<open>value\<close> attribute of a Phone object that the
  list \<open>phones\<close> holds, and \<open>find_phone\<close> hands such an object out, so Phone objects
  have an identity: they live in a store, a list of objects in which the address of an
  object is its index, and \<open>phones\<close> is a list of addresses. Constructing an object
  appends it to the store; nothing is ever freed. Python has no dangling reference, so
  an address read by the code is always below the length of the store; the predicate
  \<open>well_formed\<close> below says so. The Record itself is passed to each method and returned
  by it (the attribute \<open>name\<close> is never assigned after construction).
\<close>

type_synonym ref = nat
type_synonym store = "Field list"

record Record =
  name :: Field
  phones :: "ref list"

definition Record_init :: "pystr \<Rightarrow> exn + Record" where
  "Record_init n =
     (case Name n of
        Inl e \<Rightarrow> Inl e
      | Inr nm \<Rightarrow> Inr \<lparr>name = nm, phones = []\<rparr>)"

text \<open>
  \<open>add_phone\<close>: the body of \<open>try\<close> constructs the Phone and appends it; the handler of
  \<open>ValueError\<close> prints the message. A construction that raises leaves no object behind.
\<close>

definition add_phone ::
  "(pychar \<Rightarrow> bool) \<Rightarrow> store \<Rightarrow> Record \<Rightarrow> pystr \<Rightarrow> exn + (store \<times> Record \<times> pystr list)" where
  "add_phone d h r phone =
     (case Phone d phone of
        Inr new_phone \<Rightarrow> Inr (h @ [new_phone], r\<lparr>phones := phones r @ [length h]\<rparr>, [])
      | Inl (ValueError e) \<Rightarrow> Inr (h, r, [py ''Couldn't find the phone: '' @ e]))"

text \<open>
  \<open>remove_phone\<close>: the loop runs over \<open>self.phones\<close>; \<open>list.remove\<close> deletes the first
  occurrence of the object found (Field defines no \<open>__eq__\<close>, so objects are equal when
  they are the same object).
\<close>

fun remove_phone_loop :: "store \<Rightarrow> Record \<Rightarrow> ref list \<Rightarrow> pystr \<Rightarrow> bool \<times> Record \<times> pystr list" where
  "remove_phone_loop h r [] phone = (False, r, [py ''Phone not found''])"
| "remove_phone_loop h r (phone_obj # rest) phone =
     (if value_f (h ! phone_obj) = phone
      then (True, r\<lparr>phones := remove1 phone_obj (phones r)\<rparr>, [])
      else remove_phone_loop h r rest phone)"

definition remove_phone :: "store \<Rightarrow> Record \<Rightarrow> pystr \<Rightarrow> bool \<times> Record \<times> pystr list" where
  "remove_phone h r phone = remove_phone_loop h r (phones r) phone"

text \<open>
  \<open>edit_phone\<close>: at the first object whose value is \<open>old_phone\<close> a Phone is constructed
  from \<open>new_phone\<close> (a new object of the store), and its value is assigned to the
  \<open>value\<close> attribute of the object found; a \<open>ValueError\<close> is handled by printing and
  returning \<open>False\<close>.
\<close>

fun edit_phone_loop ::
  "(pychar \<Rightarrow> bool) \<Rightarrow> store \<Rightarrow> Record \<Rightarrow> ref list \<Rightarrow> pystr \<Rightarrow> pystr \<Rightarrow>
     exn + (bool \<times> store \<times> Record \<times> pystr list)" where
  "edit_phone_loop d h r [] old_phone new_phone = Inr (False, h, r, [py ''Phone not found''])"
| "edit_phone_loop d h r (phone_obj # rest) old_phone new_phone =
     (if value_f (h ! phone_obj) = old_phone
      then (case Phone d new_phone of
              Inr validated_phone \<Rightarrow>
                Inr (True,
                     (h @ [validated_phone])
                       [phone_obj := (h ! phone_obj)\<lparr>value_f := value_f validated_phone\<rparr>],
                     r, [])
            | Inl (ValueError e) \<Rightarrow> Inr (False, h, r, [py ''Couldn't find the phone: '' @ e]))
      else edit_phone_loop d h r rest old_phone new_phone)"

definition edit_phone ::
  "(pychar \<Rightarrow> bool) \<Rightarrow> store \<Rightarrow> Record \<Rightarrow> pystr \<Rightarrow> pystr \<Rightarrow>
     exn + (bool \<times> store \<times> Record \<times> pystr list)" where
  "edit_phone d h r old_phone new_phone = edit_phone_loop d h r (phones r) old_phone new_phone"

text \<open>\<open>find_phone\<close> returns the object found (its address), or \<open>None\<close> after printing.\<close>

fun find_phone_loop :: "store \<Rightarrow> ref list \<Rightarrow> pystr \<Rightarrow> ref option \<times> pystr list" where
  "find_phone_loop h [] phone = (None, [py ''Phone not found''])"
| "find_phone_loop h (phone_obj # rest) phone =
     (if value_f (h ! phone_obj) = phone then (Some phone_obj, [])
      else find_phone_loop h rest phone)"

definition find_phone :: "store \<Rightarrow> Record \<Rightarrow> pystr \<Rightarrow> ref option \<times> pystr list" where
  "find_phone h r phone = find_phone_loop h (phones r) phone"

text \<open>
  \<open>str.join\<close> and \<open>Record.__str__\<close>. \<open>phone_values\<close> is the generator
  \<open>p.value for p in self.phones\<close>.
\<close>

fun join :: "pystr \<Rightarrow> pystr list \<Rightarrow> pystr" where
  "join sep [] = []"
| "join sep [x] = x"
| "join sep (x # y # ys) = x @ sep @ join sep (y # ys)"

definition phone_values :: "store \<Rightarrow> Record \<Rightarrow> pystr list" where
  "phone_values h r = map (\<lambda>p. value_f (h ! p)) (phones r)"

definition Record_str :: "store \<Rightarrow> Record \<Rightarrow> pystr" where
  "Record_str h r =
     (let phones_str = join (py ''; '') (phone_values h r)
      in py ''Contact name: '' @ value_f (name r) @ py '', phones: '' @ phones_str)"

definition Record_repr :: "store \<Rightarrow> Record \<Rightarrow> pystr" where
  "Record_repr h r = Record_str h r"

section \<open>AddressBook\<close>

text \<open>
  \<open>AddressBook\<close> is a \<open>UserDict\<close>: its attribute \<open>data\<close> is a dictionary from names
  to records. \<open>find\<close> of the source is \<open>find_record\<close> here. The methods of the claims
  do not depend on the iteration order of the dictionary, so \<open>data\<close> is a map.
\<close>

record AddressBook =
  data :: "pystr \<rightharpoonup> Record"

definition AddressBook_init :: AddressBook where
  "AddressBook_init = \<lparr>data = Map.empty\<rparr>"

definition add_record :: "AddressBook \<Rightarrow> Record \<Rightarrow> AddressBook" where
  "add_record b record = b\<lparr>data := (data b)(value_f (name record) \<mapsto> record)\<rparr>"

definition find_record :: "AddressBook \<Rightarrow> pystr \<Rightarrow> Record option" where
  "find_record b n = data b n"

definition delete :: "AddressBook \<Rightarrow> pystr \<Rightarrow> AddressBook \<times> pystr list" where
  "delete b n =
     (if n \<in> dom (data b) then (b\<lparr>data := (data b)(n := None)\<rparr>, [])
      else (b, [py ''Record not found'']))"

section \<open>Callers, invariants and example data\<close>

text \<open>
  A Record owns its Phone objects: every address in \<open>phones\<close> is an object of the store
  and no object is listed twice. \<open>add_phone\<close> is the only method that stores an object,
  and it stores a new one, so every Record built by the constructor and the methods is
  well formed (lemma \<open>reachable_well_formed\<close>).
\<close>

definition well_formed :: "store \<Rightarrow> Record \<Rightarrow> bool" where
  "well_formed h r = (distinct (phones r) \<and> list_all (\<lambda>p. p < length h) (phones r))"

text \<open>A caller that calls \<open>add_phone\<close> with each candidate of a list in turn.\<close>

fun add_phone_all ::
  "(pychar \<Rightarrow> bool) \<Rightarrow> store \<Rightarrow> Record \<Rightarrow> pystr list \<Rightarrow> exn + (store \<times> Record \<times> pystr list)" where
  "add_phone_all d h r [] = Inr (h, r, [])"
| "add_phone_all d h r (c # cs) =
     (case add_phone d h r c of
        Inl e \<Rightarrow> Inl e
      | Inr (h', r', out) \<Rightarrow>
          (case add_phone_all d h' r' cs of
             Inl e \<Rightarrow> Inl e
           | Inr (h'', r'', out') \<Rightarrow> Inr (h'', r'', out @ out')))"

text \<open>
  A caller that runs any sequence of the methods of a Record, one call after the other,
  and stops at the first exception that escapes a call.
\<close>

datatype record_op =
    AddPhone pystr
  | RemovePhone pystr
  | EditPhone pystr pystr
  | FindPhone pystr

fun run_op :: "(pychar \<Rightarrow> bool) \<Rightarrow> store \<times> Record \<Rightarrow> record_op \<Rightarrow> exn + (store \<times> Record)" where
  "run_op d (h, r) (AddPhone s) =
     (case add_phone d h r s of Inl e \<Rightarrow> Inl e | Inr (h', r', out) \<Rightarrow> Inr (h', r'))"
| "run_op d (h, r) (RemovePhone s) =
     (case remove_phone h r s of (ok, r', out) \<Rightarrow> Inr (h, r'))"
| "run_op d (h, r) (EditPhone old new) =
     (case edit_phone d h r old new of Inl e \<Rightarrow> Inl e | Inr (ok, h', r', out) \<Rightarrow> Inr (h', r'))"
| "run_op d (h, r) (FindPhone s) =
     (case find_phone h r s of (found, out) \<Rightarrow> Inr (h, r))"

fun run_ops :: "(pychar \<Rightarrow> bool) \<Rightarrow> store \<times> Record \<Rightarrow> record_op list \<Rightarrow> exn + (store \<times> Record)" where
  "run_ops d hr [] = Inr hr"
| "run_ops d hr (x # xs) =
     (case run_op d hr x of Inl e \<Rightarrow> Inl e | Inr hr' \<Rightarrow> run_ops d hr' xs)"

text \<open>The invariant of a Record: every stored Phone is an object holding 10 digits.\<close>

definition phones_valid :: "(pychar \<Rightarrow> bool) \<Rightarrow> store \<Rightarrow> Record \<Rightarrow> bool" where
  "phones_valid d h r =
     list_all (\<lambda>p. p < length h \<and> length (value_f (h ! p)) = 10 \<and> list_all d (value_f (h ! p)))
       (phones r)"

text \<open>A caller that runs any sequence of the methods of an AddressBook.\<close>

datatype book_op =
    AddRecord Record
  | Find pystr
  | Delete pystr

fun run_book_op :: "AddressBook \<Rightarrow> book_op \<Rightarrow> AddressBook" where
  "run_book_op b (AddRecord r) = add_record b r"
| "run_book_op b (Find n) = (case find_record b n of None \<Rightarrow> b | Some r \<Rightarrow> b)"
| "run_book_op b (Delete n) = fst (delete b n)"

definition run_book_ops :: "AddressBook \<Rightarrow> book_op list \<Rightarrow> AddressBook" where
  "run_book_ops b xs = foldl run_book_op b xs"

definition keyed_by_name :: "AddressBook \<Rightarrow> bool" where
  "keyed_by_name b = (\<forall>k r. data b k = Some r \<longrightarrow> value_f (name r) = k)"

text \<open>
  The record of the sample driver: John, with the phones 1234567890 and 5555555555 at the
  addresses 0 and 1 of the store, and the store after
  \<open>edit_phone("1234567890", "1112223333")\<close>.
\<close>

definition john_store :: store where
  "john_store = [\<lparr>value_f = py ''1234567890''\<rparr>, \<lparr>value_f = py ''5555555555''\<rparr>]"

definition john :: Record where
  "john = \<lparr>name = \<lparr>value_f = py ''John''\<rparr>, phones = [0, 1]\<rparr>"

definition john_store_edited :: store where
  "john_store_edited =
     [\<lparr>value_f = py ''1112223333''\<rparr>, \<lparr>value_f = py ''5555555555''\<rparr>,
      \<lparr>value_f = py ''1112223333''\<rparr>]"

text \<open>
  More example data: John as constructed (no phone yet) and a sequence of calls on him;
  Jane, whose phone 9876543210 is the object at address 2 of the store \<open>driver_store\<close>;
  a sequence of calls on an AddressBook.
\<close>

definition john_new :: Record where
  "john_new = \<lparr>name = \<lparr>value_f = py ''John''\<rparr>, phones = []\<rparr>"

definition john_ops :: "record_op list" where
  "john_ops =
     [AddPhone (py ''1234567890''), AddPhone (py ''12345''), AddPhone (py ''5555555555''),
      EditPhone (py ''1234567890'') (py ''1112223333''),
      EditPhone (py ''5555555555'') (py ''555-555-55''),
      FindPhone (py ''5555555555''), RemovePhone (py ''5555555555'')]"

definition jane :: Record where
  "jane = \<lparr>name = \<lparr>value_f = py ''Jane''\<rparr>, phones = [2]\<rparr>"

definition driver_store :: store where
  "driver_store = john_store @ [\<lparr>value_f = py ''9876543210''\<rparr>]"

definition book_ops :: "book_op list" where
  "book_ops = [AddRecord john_new, AddRecord jane, Find (py ''John''), AddRecord john,
               Delete (py ''Jane''), Delete (py ''Nobody'')]"

section \<open>Phone validation\<close>

lemma match_digits_Some:
  "(match_digits d n s = Some t) = (\<exists>u. s = u @ t \<and> length u = n \<and> list_all d u)"
proof (induction d n s rule: match_digits.induct)
  case (1 d s)
  then show ?case by auto
next
  case (2 d n)
  then show ?case by auto
next
  case (3 d n c s)
  show ?case
  proof (cases "d c")
    case True
    have "(\<exists>u. c # s = u @ t \<and> length u = Suc n \<and> list_all d u) =
          (\<exists>u'. s = u' @ t \<and> length u' = n \<and> list_all d u')"
    proof
      assume "\<exists>u. c # s = u @ t \<and> length u = Suc n \<and> list_all d u"
      then obtain u where u: "c # s = u @ t" "length u = Suc n" "list_all d u" by blast
      then obtain u' where "u = c # u'" by (cases u) auto
      with u show "\<exists>u'. s = u' @ t \<and> length u' = n \<and> list_all d u'" by auto
    next
      assume "\<exists>u'. s = u' @ t \<and> length u' = n \<and> list_all d u'"
      then obtain u' where "s = u' @ t" "length u' = n" "list_all d u'" by blast
      with True have "c # s = (c # u') @ t \<and> length (c # u') = Suc n \<and> list_all d (c # u')"
        by simp
      then show "\<exists>u. c # s = u @ t \<and> length u = Suc n \<and> list_all d u" by blast
    qed
    with True 3 show ?thesis by simp
  next
    case False
    have "\<not> (\<exists>u. c # s = u @ t \<and> length u = Suc n \<and> list_all d u)"
    proof
      assume "\<exists>u. c # s = u @ t \<and> length u = Suc n \<and> list_all d u"
      then obtain u where u: "c # s = u @ t" "length u = Suc n" "list_all d u" by blast
      then obtain u' where "u = c # u'" by (cases u) auto
      with u False show False by simp
    qed
    with False show ?thesis by simp
  qed
qed

lemma fullmatch_digits_iff:
  "fullmatch_digits d n s = (length s = n \<and> list_all d s)"
  unfolding fullmatch_digits_def match_digits_Some by auto

lemma Phone_Inl:
  "Phone d s = Inl e \<Longrightarrow> e = ValueError (py ''The phone should contain 10 digits'')"
  by (auto simp: Phone_def split: if_splits)

lemma Phone_Inr: "Phone d s = Inr p \<Longrightarrow> p = \<lparr>value_f = s\<rparr>"
  by (auto simp: Phone_def Field_init_def split: if_splits)

lemma Phone_ascii_valid:
  "Phone ascii_digit (py ''1112223333'') = Inr \<lparr>value_f = py ''1112223333''\<rparr>"
  by (simp add: Phone_def Field_init_def fullmatch_digits_iff py_def ascii_digit_def)

lemma Phone_ascii_short:
  "Phone ascii_digit (py ''12345'') = Inl (ValueError (py ''The phone should contain 10 digits''))"
  by (simp add: Phone_def fullmatch_digits_iff py_def)

text \<open>
  Claim C1. For every string \<open>s\<close>, constructing a Phone from \<open>s\<close> raises the
  \<open>ValueError\<close> with the message "The phone should contain 10 digits" exactly when
  \<open>s\<close> is not 10 digit characters (its length differs from 10 or one of its characters
  is not a digit), and it raises at all exactly then; the construction succeeds exactly
  when \<open>s\<close> is 10 digit characters, and the Phone constructed holds \<open>s\<close> as its value.
\<close>

theorem Phone_validation:
  "(Phone d s = Inl (ValueError (py ''The phone should contain 10 digits'')))
     = (length s \<noteq> 10 \<or> (\<exists>c\<in>set s. \<not> d c))
   \<and> ((\<exists>e. Phone d s = Inl e) = (length s \<noteq> 10 \<or> (\<exists>c\<in>set s. \<not> d c)))
   \<and> ((Phone d s = Inr \<lparr>value_f = s\<rparr>) = (length s = 10 \<and> (\<forall>c\<in>set s. d c)))
   \<and> (\<forall>p. Phone d s = Inr p \<longrightarrow> value_f p = s)"
  by (auto simp: Phone_def fullmatch_digits_iff list_all_iff Field_init_def)

theorem Phone_validation_witness:
  "Phone ascii_digit (py ''1234567890'') = Inr \<lparr>value_f = py ''1234567890''\<rparr>
   \<and> value_f \<lparr>value_f = py ''1234567890''\<rparr> = py ''1234567890''
   \<and> length (py ''1234567890'') = 10
   \<and> list_all ascii_digit (py ''1234567890'')
   \<and> Phone ascii_digit (py ''12345'') = Inl (ValueError (py ''The phone should contain 10 digits''))
   \<and> length (py ''12345'') \<noteq> 10
   \<and> Phone ascii_digit (py ''12345abcde'') = Inl (ValueError (py ''The phone should contain 10 digits''))
   \<and> \<not> list_all ascii_digit (py ''12345abcde'')"
  using Phone_validation [of ascii_digit "py ''1234567890''"]
        Phone_validation [of ascii_digit "py ''12345''"]
        Phone_validation [of ascii_digit "py ''12345abcde''"]
  by (simp add: py_def ascii_digit_def)

section \<open>add_phone with an invalid candidate\<close>

lemma add_phone_invalid:
  "Phone d c = Inl e \<Longrightarrow>
   add_phone d h r c =
     Inr (h, r, [py ''Couldn't find the phone: '' @ py ''The phone should contain 10 digits''])"
  by (auto simp: add_phone_def dest: Phone_Inl)

lemma add_phone_all_invalid:
  "list_all (\<lambda>c. \<exists>e. Phone d c = Inl e) cs \<Longrightarrow>
   add_phone_all d h r cs =
     Inr (h, r,
          replicate (length cs)
            (py ''Couldn't find the phone: '' @ py ''The phone should contain 10 digits''))"
  by (induction cs) (auto simp: add_phone_invalid)

text \<open>
  Claim C3. For every Record and every candidate that fails the validation of Phone,
  \<open>add_phone\<close> returns normally (the \<open>ValueError\<close> is handled inside, its message is
  printed) and leaves the store and the Record, hence \<open>phones\<close>, as they were; so does
  any number of calls with invalid candidates, one after the other.
\<close>

theorem add_phone_invalid_unchanged:
  "(Phone d c = Inl e \<longrightarrow>
      add_phone d h r c =
        Inr (h, r, [py ''Couldn't find the phone: '' @ py ''The phone should contain 10 digits'']))
   \<and> ((\<forall>c\<in>set cs. \<exists>e. Phone d c = Inl e) \<longrightarrow>
        add_phone_all d h r cs =
          Inr (h, r,
               replicate (length cs)
                 (py ''Couldn't find the phone: '' @ py ''The phone should contain 10 digits'')))"
  by (simp add: add_phone_invalid add_phone_all_invalid list_all_iff)

theorem add_phone_invalid_unchanged_witness:
  "Phone ascii_digit (py ''12345'') = Inl (ValueError (py ''The phone should contain 10 digits''))
   \<and> add_phone ascii_digit john_store john (py ''12345'') =
        Inr (john_store, john,
             [py ''Couldn't find the phone: '' @ py ''The phone should contain 10 digits''])
   \<and> Phone ascii_digit (py ''123456789x'') = Inl (ValueError (py ''The phone should contain 10 digits''))
   \<and> add_phone_all ascii_digit john_store john [py ''12345'', py ''123456789x'', py ''12345''] =
        Inr (john_store, john,
             [py ''Couldn't find the phone: '' @ py ''The phone should contain 10 digits'',
              py ''Couldn't find the phone: '' @ py ''The phone should contain 10 digits'',
              py ''Couldn't find the phone: '' @ py ''The phone should contain 10 digits''])"
proof -
  note a = Phone_ascii_short
  have b: "Phone ascii_digit (py ''123456789x'') = Inl (ValueError (py ''The phone should contain 10 digits''))"
    by (simp add: Phone_def fullmatch_digits_iff py_def ascii_digit_def)
  have c: "\<forall>c\<in>set [py ''12345'', py ''123456789x'', py ''12345'']. \<exists>e. Phone ascii_digit c = Inl e"
    using a b by simp
  note t = add_phone_invalid_unchanged
    [of ascii_digit _ _ john_store john "[py ''12345'', py ''123456789x'', py ''12345'']"]
  from t a have 1: "add_phone ascii_digit john_store john (py ''12345'') =
        Inr (john_store, john,
             [py ''Couldn't find the phone: '' @ py ''The phone should contain 10 digits''])"
    by blast
  from t c have "add_phone_all ascii_digit john_store john [py ''12345'', py ''123456789x'', py ''12345''] =
        Inr (john_store, john,
             replicate (length [py ''12345'', py ''123456789x'', py ''12345''])
               (py ''Couldn't find the phone: '' @ py ''The phone should contain 10 digits''))"
    by blast
  then have 2: "add_phone_all ascii_digit john_store john [py ''12345'', py ''123456789x'', py ''12345''] =
        Inr (john_store, john,
             [py ''Couldn't find the phone: '' @ py ''The phone should contain 10 digits'',
              py ''Couldn't find the phone: '' @ py ''The phone should contain 10 digits'',
              py ''Couldn't find the phone: '' @ py ''The phone should contain 10 digits''])"
    by (simp add: numeral_3_eq_3)
  from a b 1 2 show ?thesis by blast
qed

section \<open>edit_phone\<close>

lemma Field_update: "(f::Field)\<lparr>value_f := x\<rparr> = \<lparr>value_f = x\<rparr>"
  by (cases f) simp

lemma edit_phone_loop_invalid:
  "old \<in> set (map (\<lambda>p. value_f (h ! p)) ps) \<Longrightarrow> Phone d new = Inl e \<Longrightarrow>
   edit_phone_loop d h r ps old new =
     Inr (False, h, r, [py ''Couldn't find the phone: '' @ py ''The phone should contain 10 digits''])"
proof (induction ps)
  case Nil
  then show ?case by simp
next
  case (Cons a ps)
  from Cons.prems(2) have e: "Phone d new = Inl (ValueError (py ''The phone should contain 10 digits''))"
    using Phone_Inl by blast
  show ?case
  proof (cases "value_f (h ! a) = old")
    case True
    with e show ?thesis by simp
  next
    case False
    with Cons show ?thesis by auto
  qed
qed

lemma edit_phone_loop_not_found:
  "old \<notin> set (map (\<lambda>p. value_f (h ! p)) ps) \<Longrightarrow>
   edit_phone_loop d h r ps old new = Inr (False, h, r, [py ''Phone not found''])"
  by (induction ps) auto

text \<open>
  The loop stops at the first address whose object holds \<open>old\<close>: the address at the
  index \<open>length (takeWhile (\<lambda>x. x \<noteq> old) values)\<close> of the list.
\<close>

lemma edit_phone_loop_found:
  "old \<in> set (map (\<lambda>p. value_f (h ! p)) ps) \<Longrightarrow> Phone d new = Inr v \<Longrightarrow>
   edit_phone_loop d h r ps old new =
     Inr (True,
          (h @ [\<lparr>value_f = new\<rparr>])
            [ps ! length (takeWhile (\<lambda>x. x \<noteq> old) (map (\<lambda>p. value_f (h ! p)) ps)) := \<lparr>value_f = new\<rparr>],
          r, [])"
proof (induction ps)
  case Nil
  then show ?case by simp
next
  case (Cons a ps)
  from Cons.prems(2) have v: "v = \<lparr>value_f = new\<rparr>" by (rule Phone_Inr)
  show ?case
  proof (cases "value_f (h ! a) = old")
    case True
    with Cons.prems(2) v show ?thesis by (simp add: Field_update)
  next
    case False
    with Cons show ?thesis by auto
  qed
qed

lemma takeWhile_index_less:
  "x \<in> set xs \<Longrightarrow> length (takeWhile (\<lambda>y. y \<noteq> x) xs) < length xs"
  by (induction xs) auto

lemma first_match_value:
  "old \<in> set (map f ps) \<Longrightarrow> f (ps ! length (takeWhile (\<lambda>x. x \<noteq> old) (map f ps))) = old"
  by (induction ps) auto

lemma values_after_update:
  assumes "distinct ps" and "list_all (\<lambda>p. p < length h) ps" and "i < length ps"
  shows "map (\<lambda>p. value_f (((h @ [w])[ps ! i := \<lparr>value_f = new\<rparr>]) ! p)) ps =
         (map (\<lambda>p. value_f (h ! p)) ps)[i := new]"
proof (rule nth_equalityI)
  show "length (map (\<lambda>p. value_f (((h @ [w])[ps ! i := \<lparr>value_f = new\<rparr>]) ! p)) ps) =
        length ((map (\<lambda>p. value_f (h ! p)) ps)[i := new])" by simp
next
  fix j
  assume "j < length (map (\<lambda>p. value_f (((h @ [w])[ps ! i := \<lparr>value_f = new\<rparr>]) ! p)) ps)"
  then have j: "j < length ps" by simp
  from assms(2) j have pj: "ps ! j < length h" by (simp add: list_all_length)
  from assms(2,3) have pi: "ps ! i < length h" by (simp add: list_all_length)
  show "map (\<lambda>p. value_f (((h @ [w])[ps ! i := \<lparr>value_f = new\<rparr>]) ! p)) ps ! j =
        (map (\<lambda>p. value_f (h ! p)) ps)[i := new] ! j"
  proof (cases "j = i")
    case True
    with j pi show ?thesis by simp
  next
    case False
    with assms(1,3) j have "ps ! j \<noteq> ps ! i" by (simp add: nth_eq_iff_index_eq)
    with False j pj show ?thesis by (simp add: nth_append)
  qed
qed

lemma john_well_formed: "well_formed john_store john"
  by (simp add: well_formed_def john_def john_store_def)

lemma john_values: "phone_values john_store john = [py ''1234567890'', py ''5555555555'']"
  by (simp add: phone_values_def john_def john_store_def)

lemma john_edit:
  "edit_phone ascii_digit john_store john (py ''1234567890'') (py ''1112223333'')
     = Inr (True, john_store_edited, john, [])"
  by (simp add: edit_phone_def john_def john_store_def john_store_edited_def Phone_ascii_valid)

lemma john_edit_absent:
  "edit_phone ascii_digit john_store john (py ''0000000000'') (py ''1112223333'')
     = Inr (False, john_store, john, [py ''Phone not found''])"
  by (simp add: edit_phone_def john_def john_store_def py_def)

text \<open>
  Claim C2. For every Record and strings \<open>old\<close> and \<open>new\<close>: if a phone of the Record
  holds \<open>old\<close> and \<open>new\<close> fails the validation of Phone, then \<open>edit_phone\<close> returns
  \<open>False\<close> normally (the \<open>ValueError\<close> does not reach the caller, its message is
  printed) and the store and the Record are what they were before the call, so
  \<open>phones\<close> is unchanged, order included.
\<close>

theorem edit_phone_invalid_unchanged:
  assumes "old \<in> set (phone_values h r)" and "Phone d new = Inl e"
  shows "edit_phone d h r old new =
           Inr (False, h, r,
                [py ''Couldn't find the phone: '' @ py ''The phone should contain 10 digits''])"
  using assms unfolding edit_phone_def phone_values_def by (rule edit_phone_loop_invalid)

theorem edit_phone_invalid_unchanged_witness:
  "py ''1234567890'' \<in> set (phone_values john_store john)
   \<and> Phone ascii_digit (py ''12345'') = Inl (ValueError (py ''The phone should contain 10 digits''))
   \<and> edit_phone ascii_digit john_store john (py ''1234567890'') (py ''12345'') =
       Inr (False, john_store, john,
            [py ''Couldn't find the phone: '' @ py ''The phone should contain 10 digits''])"
proof -
  have a: "py ''1234567890'' \<in> set (phone_values john_store john)"
    by (simp add: john_values)
  note b = Phone_ascii_short
  from a b edit_phone_invalid_unchanged [OF a b] show ?thesis by simp
qed

text \<open>
  Claim C4. For every Record (well formed: it owns its Phone objects) and strings
  \<open>old\<close> and \<open>new\<close>: if \<open>new\<close> passes the validation of Phone and a phone of the
  Record holds \<open>old\<close>, then \<open>edit_phone\<close> returns \<open>True\<close>, the Record lists the same
  objects, and the values of its phones afterwards are those before with \<open>new\<close> at the
  position of the first phone that held \<open>old\<close>, every other position and the order
  unchanged; if no phone holds \<open>old\<close>, \<open>edit_phone\<close> returns \<open>False\<close> after printing
  "Phone not found" and nothing changes.
\<close>

theorem edit_phone_replaces_first:
  "(well_formed h r \<and> old \<in> set (phone_values h r) \<and> (\<exists>v. Phone d new = Inr v) \<longrightarrow>
      (\<exists>h'. edit_phone d h r old new = Inr (True, h', r, [])
           \<and> phone_values h' r =
               (phone_values h r)[length (takeWhile (\<lambda>x. x \<noteq> old) (phone_values h r)) := new]))
   \<and> (old \<notin> set (phone_values h r) \<longrightarrow>
        edit_phone d h r old new = Inr (False, h, r, [py ''Phone not found'']))"
proof (intro conjI impI)
  assume a: "well_formed h r \<and> old \<in> set (phone_values h r) \<and> (\<exists>v. Phone d new = Inr v)"
  then obtain v where v: "Phone d new = Inr v" by blast
  let ?i = "length (takeWhile (\<lambda>x. x \<noteq> old) (phone_values h r))"
  let ?h' = "(h @ [\<lparr>value_f = new\<rparr>])[phones r ! ?i := \<lparr>value_f = new\<rparr>]"
  from a have found: "old \<in> set (map (\<lambda>p. value_f (h ! p)) (phones r))"
    by (simp add: phone_values_def)
  have e: "edit_phone d h r old new = Inr (True, ?h', r, [])"
    unfolding edit_phone_def phone_values_def by (rule edit_phone_loop_found [OF found v])
  from a have "?i < length (phone_values h r)" by (simp add: takeWhile_index_less)
  then have i: "?i < length (phones r)" by (simp add: phone_values_def)
  from a have w: "distinct (phones r)" "list_all (\<lambda>p. p < length h) (phones r)"
    by (simp_all add: well_formed_def)
  have "phone_values ?h' r = (phone_values h r)[?i := new]"
    using values_after_update [OF w i, of "\<lparr>value_f = new\<rparr>" new]
    by (simp add: phone_values_def)
  with e show "\<exists>h'. edit_phone d h r old new = Inr (True, h', r, [])
           \<and> phone_values h' r = (phone_values h r)[?i := new]" by blast
next
  assume "old \<notin> set (phone_values h r)"
  then show "edit_phone d h r old new = Inr (False, h, r, [py ''Phone not found''])"
    unfolding edit_phone_def phone_values_def by (rule edit_phone_loop_not_found)
qed

theorem edit_phone_replaces_first_witness:
  "well_formed john_store john
   \<and> py ''1234567890'' \<in> set (phone_values john_store john)
   \<and> Phone ascii_digit (py ''1112223333'') = Inr \<lparr>value_f = py ''1112223333''\<rparr>
   \<and> edit_phone ascii_digit john_store john (py ''1234567890'') (py ''1112223333'')
        = Inr (True, john_store_edited, john, [])
   \<and> phone_values john_store john = [py ''1234567890'', py ''5555555555'']
   \<and> phone_values john_store_edited john = [py ''1112223333'', py ''5555555555'']
   \<and> py ''0000000000'' \<notin> set (phone_values john_store john)
   \<and> edit_phone ascii_digit john_store john (py ''0000000000'') (py ''1112223333'')
        = Inr (False, john_store, john, [py ''Phone not found''])"
proof -
  note w = john_well_formed and vs = john_values and p = Phone_ascii_valid
  have f: "py ''1234567890'' \<in> set (phone_values john_store john)"
    unfolding vs by simp
  have nf: "py ''0000000000'' \<notin> set (phone_values john_store john)"
    unfolding vs by (simp add: py_def)
  note t = edit_phone_replaces_first [of john_store john _ ascii_digit "py ''1112223333''"]
  from t [of "py ''1234567890''"] w f p obtain h' where
    h': "edit_phone ascii_digit john_store john (py ''1234567890'') (py ''1112223333'')
           = Inr (True, h', john, [])"
    and v': "phone_values h' john =
           (phone_values john_store john)
             [length (takeWhile (\<lambda>x. x \<noteq> py ''1234567890'') (phone_values john_store john))
                := py ''1112223333'']"
    by blast
  from h' have "h' = john_store_edited" by (simp add: john_edit)
  with h' v' have e: "edit_phone ascii_digit john_store john (py ''1234567890'') (py ''1112223333'')
        = Inr (True, john_store_edited, john, [])"
    and v: "phone_values john_store_edited john = [py ''1112223333'', py ''5555555555'']"
    by (simp_all add: vs)
  from t [of "py ''0000000000''"] nf
  have n: "edit_phone ascii_digit john_store john (py ''0000000000'') (py ''1112223333'')
        = Inr (False, john_store, john, [py ''Phone not found''])" by blast
  from w f p e vs v nf n show ?thesis by blast
qed

section \<open>Phone objects are assigned to in place\<close>

lemma edit_phone_loop_True:
  "edit_phone_loop d h r ps old new = Inr (True, h', r', out) \<Longrightarrow>
   old \<in> set (map (\<lambda>p. value_f (h ! p)) ps) \<and> (\<exists>v. Phone d new = Inr v)"
  by (induction ps) (auto split: if_splits sum.splits exn.splits)

lemma edit_phone_loop_False:
  "edit_phone_loop d h r ps old new = Inr (False, h', r', out) \<Longrightarrow> h' = h \<and> r' = r"
  by (induction ps) (auto split: if_splits sum.splits exn.splits)

lemma find_phone_loop_found:
  "old \<in> set (map (\<lambda>p. value_f (h ! p)) ps) \<Longrightarrow>
   find_phone_loop h ps old =
     (Some (ps ! length (takeWhile (\<lambda>x. x \<noteq> old) (map (\<lambda>p. value_f (h ! p)) ps))), [])"
  by (induction ps) auto

text \<open>
  Claim C8, as the code has it. A Phone is not immutable. When \<open>edit_phone\<close> succeeds,
  the Record lists the same objects as before; the object found (the one \<open>find_phone\<close>
  returns for \<open>old\<close>) held \<open>old\<close> before the call and holds \<open>new\<close> after it, so its
  value was assigned in place; the Phone constructed from \<open>new\<close> is a new object of
  the store that the Record does not list; every other object that existed before the
  call is unchanged. When \<open>edit_phone\<close> returns \<open>False\<close> the store and the Record are
  unchanged, and \<open>add_phone\<close> changes no object that existed before (\<open>remove_phone\<close>
  and \<open>find_phone\<close> do not write to the store at all).
\<close>

theorem edit_phone_assigns_in_place:
  "(well_formed h r \<and> edit_phone d h r old new = Inr (True, h', r', out) \<longrightarrow>
      r' = r \<and> length h' = Suc (length h) \<and> h' ! length h = \<lparr>value_f = new\<rparr>
      \<and> length h \<notin> set (phones r')
      \<and> (\<exists>a. find_phone h r old = (Some a, []) \<and> a \<in> set (phones r) \<and> a < length h
             \<and> value_f (h ! a) = old \<and> value_f (h' ! a) = new
             \<and> (\<forall>q < length h. q \<noteq> a \<longrightarrow> h' ! q = h ! q)))
   \<and> (edit_phone d h r old new = Inr (False, h', r', out) \<longrightarrow> h' = h \<and> r' = r)
   \<and> (add_phone d h r new = Inr (h', r', out) \<longrightarrow> take (length h) h' = h)"
proof (intro conjI impI)
  assume a: "well_formed h r \<and> edit_phone d h r old new = Inr (True, h', r', out)"
  let ?f = "\<lambda>p. value_f (h ! p)"
  let ?i = "length (takeWhile (\<lambda>x. x \<noteq> old) (map ?f (phones r)))"
  let ?a = "phones r ! ?i"
  from a have l: "edit_phone_loop d h r (phones r) old new = Inr (True, h', r', out)"
    by (simp add: edit_phone_def)
  from edit_phone_loop_True [OF l] obtain v where
    found: "old \<in> set (map ?f (phones r))" and v: "Phone d new = Inr v" by blast
  have "Inr (True, h', r', out) =
        (Inr (True, (h @ [\<lparr>value_f = new\<rparr>])[?a := \<lparr>value_f = new\<rparr>], r, [])
          :: exn + (bool \<times> store \<times> Record \<times> pystr list))"
    using l [symmetric] edit_phone_loop_found [OF found v, of r] by (rule trans)
  then have h': "h' = (h @ [\<lparr>value_f = new\<rparr>])[?a := \<lparr>value_f = new\<rparr>]" and r': "r' = r"
    by auto
  from found have i: "?i < length (phones r)"
    using takeWhile_index_less [of old "map ?f (phones r)"] by simp
  from a have all: "list_all (\<lambda>p. p < length h) (phones r)" by (simp add: well_formed_def)
  with i have ah: "?a < length h" by (simp add: list_all_length)
  from i have am: "?a \<in> set (phones r)" by simp
  show "r' = r" by (rule r')
  show "length h' = Suc (length h)" by (simp add: h')
  show "h' ! length h = \<lparr>value_f = new\<rparr>" using ah by (simp add: h')
  show "length h \<notin> set (phones r')" using all by (auto simp: r' list_all_iff)
  have "find_phone h r old = (Some ?a, [])"
    unfolding find_phone_def by (rule find_phone_loop_found [OF found])
  moreover have "value_f (h ! ?a) = old" by (rule first_match_value [OF found])
  moreover have "value_f (h' ! ?a) = new" using ah by (simp add: h')
  moreover have "\<forall>q < length h. q \<noteq> ?a \<longrightarrow> h' ! q = h ! q"
    by (simp add: h' nth_append)
  ultimately show "\<exists>a. find_phone h r old = (Some a, []) \<and> a \<in> set (phones r) \<and> a < length h
             \<and> value_f (h ! a) = old \<and> value_f (h' ! a) = new
             \<and> (\<forall>q < length h. q \<noteq> a \<longrightarrow> h' ! q = h ! q)"
    using am ah by blast
next
  assume "edit_phone d h r old new = Inr (False, h', r', out)"
  then have "h' = h \<and> r' = r" unfolding edit_phone_def by (rule edit_phone_loop_False)
  then show "h' = h" and "r' = r" by simp_all
next
  assume "add_phone d h r new = Inr (h', r', out)"
  then show "take (length h) h' = h"
    by (auto simp: add_phone_def split: sum.splits exn.splits)
qed

theorem edit_phone_assigns_in_place_witness:
  "well_formed john_store john
   \<and> edit_phone ascii_digit john_store john (py ''1234567890'') (py ''1112223333'')
        = Inr (True, john_store_edited, john, [])
   \<and> length john_store_edited = Suc (length john_store)
   \<and> john_store_edited ! length john_store = \<lparr>value_f = py ''1112223333''\<rparr>
   \<and> length john_store \<notin> set (phones john)
   \<and> find_phone john_store john (py ''1234567890'') = (Some 0, [])
   \<and> value_f (john_store ! 0) = py ''1234567890''
   \<and> value_f (john_store_edited ! 0) = py ''1112223333''
   \<and> john_store_edited ! 1 = john_store ! 1
   \<and> edit_phone ascii_digit john_store john (py ''0000000000'') (py ''1112223333'')
        = Inr (False, john_store, john, [py ''Phone not found''])
   \<and> add_phone ascii_digit john_store john (py ''1112223333'')
        = Inr (john_store @ [\<lparr>value_f = py ''1112223333''\<rparr>], john\<lparr>phones := [0, 1, 2]\<rparr>, [])
   \<and> take (length john_store) (john_store @ [\<lparr>value_f = py ''1112223333''\<rparr>]) = john_store"
proof -
  note w = john_well_formed and p = Phone_ascii_valid and e = john_edit and n = john_edit_absent
  have a: "add_phone ascii_digit john_store john (py ''1112223333'')
        = Inr (john_store @ [\<lparr>value_f = py ''1112223333''\<rparr>], john\<lparr>phones := [0, 1, 2]\<rparr>, [])"
    by (simp add: add_phone_def p john_def john_store_def)
  have f: "find_phone john_store john (py ''1234567890'') = (Some 0, [])"
    by (simp add: find_phone_def john_def john_store_def)
  from edit_phone_assigns_in_place
    [of john_store john ascii_digit "py ''1234567890''" "py ''1112223333''" john_store_edited john "[]"]
    w e f
  have 1: "length john_store_edited = Suc (length john_store)"
    and 2: "john_store_edited ! length john_store = \<lparr>value_f = py ''1112223333''\<rparr>"
    and 3: "length john_store \<notin> set (phones john)"
    and 4: "value_f (john_store ! 0) = py ''1234567890''"
    and 5: "value_f (john_store_edited ! 0) = py ''1112223333''"
    and 6: "john_store_edited ! 1 = john_store ! 1"
    by (auto simp: john_store_def)
  from edit_phone_assigns_in_place
    [of john_store john ascii_digit _ "py ''1112223333''"
        "john_store @ [\<lparr>value_f = py ''1112223333''\<rparr>]" "john\<lparr>phones := [0, 1, 2]\<rparr>" "[]"] a
  have 8: "take (length john_store) (john_store @ [\<lparr>value_f = py ''1112223333''\<rparr>]) = john_store"
    by blast
  from w e 1 2 3 f 4 5 6 n a 8 show ?thesis by blast
qed

text \<open>
  The claim as the specification words it (a Phone never changes its value, an edit
  replaces the stored object by a new one) fails on John: the object at address 0, which
  \<open>find_phone\<close> returns for 1234567890, holds 1112223333 after the edit, and the Record
  still lists the objects 0 and 1, not the object 2 constructed during the edit.
\<close>

theorem edit_phone_mutation_counterexample:
  "find_phone john_store john (py ''1234567890'') = (Some 0, [])
   \<and> value_f (john_store ! 0) = py ''1234567890''
   \<and> edit_phone ascii_digit john_store john (py ''1234567890'') (py ''1112223333'')
        = Inr (True, john_store_edited, john, [])
   \<and> value_f (john_store_edited ! 0) = py ''1112223333''
   \<and> value_f (john_store_edited ! 0) \<noteq> value_f (john_store ! 0)
   \<and> phones john = [0, 1]
   \<and> length john_store = 2"
  by (simp add: find_phone_def edit_phone_def john_def john_store_def john_store_edited_def
      Phone_def Field_init_def fullmatch_digits_iff py_def ascii_digit_def)

section \<open>Rendering a Record\<close>

lemma join_Cons: "join sep (x # xs) = x @ concat (map (\<lambda>y. sep @ y) xs)"
  by (induction xs arbitrary: x) auto

text \<open>
  Claim C7. For every Record, \<open>__str__\<close> is the string "Contact name: ", the name,
  ", phones: " and the values of the phones in the order of \<open>phones\<close> joined with "; ":
  the first value as it is and every later value after a "; ". With no phone the result
  ends after ", phones: ".
\<close>

theorem Record_str_format:
  "Record_str h r =
     py ''Contact name: '' @ value_f (name r) @ py '', phones: ''
       @ join (py ''; '') (map (\<lambda>p. value_f (h ! p)) (phones r))
   \<and> join (py ''; '') [] = []
   \<and> (\<forall>v vs. join (py ''; '') (v # vs) = v @ concat (map (\<lambda>x. py ''; '' @ x) vs))
   \<and> (phones r = [] \<longrightarrow>
        Record_str h r = py ''Contact name: '' @ value_f (name r) @ py '', phones: '')"
  by (simp add: Record_str_def phone_values_def join_Cons)

theorem Record_str_format_witness:
  "Record_str john_store john = py ''Contact name: John, phones: 1234567890; 5555555555''
   \<and> phones john_new = []
   \<and> Record_str john_store john_new = py ''Contact name: John, phones: ''"
  using Record_str_format [of john_store john] Record_str_format [of john_store john_new]
  by (simp add: john_def john_new_def john_store_def py_def)

section \<open>The invariants of a Record\<close>

lemma add_phone_result:
  "add_phone d h r s = Inr (h, r, [py ''Couldn't find the phone: '' @ py ''The phone should contain 10 digits''])
   \<or> (length s = 10 \<and> list_all d s
      \<and> add_phone d h r s = Inr (h @ [\<lparr>value_f = s\<rparr>], r\<lparr>phones := phones r @ [length h]\<rparr>, []))"
  by (auto simp: add_phone_def Phone_def Field_init_def fullmatch_digits_iff split: sum.splits exn.splits)

lemma edit_phone_loop_result:
  "\<exists>out. edit_phone_loop d h r ps old new = Inr (False, h, r, out)
   \<or> (\<exists>a\<in>set ps. length new = 10 \<and> list_all d new
        \<and> edit_phone_loop d h r ps old new =
            Inr (True, (h @ [\<lparr>value_f = new\<rparr>])[a := \<lparr>value_f = new\<rparr>], r, []))"
proof (induction ps)
  case Nil
  then show ?case by simp
next
  case (Cons a ps)
  show ?case
  proof (cases "value_f (h ! a) = old")
    case True
    then show ?thesis
      by (auto simp: Phone_def Field_init_def Field_update fullmatch_digits_iff)
  next
    case False
    with Cons show ?thesis by auto
  qed
qed

lemma remove_phone_loop_result:
  "\<exists>out. remove_phone_loop h r ps s = (False, r, out)
   \<or> (\<exists>a\<in>set ps. remove_phone_loop h r ps s = (True, r\<lparr>phones := remove1 a (phones r)\<rparr>, []))"
  by (induction ps) auto

lemma phones_valid_add:
  assumes "phones_valid d h r" and "add_phone d h r s = Inr (h', r', out)"
  shows "phones_valid d h' r'"
  using add_phone_result [of d h r s] assms
  by (fastforce simp: phones_valid_def list_all_iff nth_append less_Suc_eq)

lemma phones_valid_remove:
  assumes "phones_valid d h r" and "remove_phone h r s = (ok, r', out)"
  shows "phones_valid d h r'"
  using remove_phone_loop_result [of h r "phones r" s] assms
  by (auto simp: remove_phone_def phones_valid_def list_all_iff dest: notin_set_remove1)

lemma phones_valid_edit:
  assumes "phones_valid d h r" and "edit_phone d h r old new = Inr (ok, h', r', out)"
  shows "phones_valid d h' r'"
proof -
  from edit_phone_loop_result [of d h r "phones r" old new] assms(2)
  consider "h' = h" "r' = r"
    | a where "a \<in> set (phones r)" "length new = 10" "list_all d new"
        "h' = (h @ [\<lparr>value_f = new\<rparr>])[a := \<lparr>value_f = new\<rparr>]" "r' = r"
    by (auto simp: edit_phone_def)
  then show ?thesis
  proof cases
    case 1
    with assms(1) show ?thesis by simp
  next
    case 2
    have "\<And>p. p \<in> set (phones r) \<Longrightarrow>
            p < length h' \<and> length (value_f (h' ! p)) = 10 \<and> list_all d (value_f (h' ! p))"
    proof -
      fix p assume p: "p \<in> set (phones r)"
      with assms(1) have ph: "p < length h" "length (value_f (h ! p)) = 10"
          "list_all d (value_f (h ! p))"
        by (simp_all add: phones_valid_def list_all_iff)
      show "p < length h' \<and> length (value_f (h' ! p)) = 10 \<and> list_all d (value_f (h' ! p))"
      proof (cases "p = a")
        case True
        with ph 2 show ?thesis by simp
      next
        case False
        with ph 2 show ?thesis by (simp add: nth_append)
      qed
    qed
    with 2 show ?thesis by (simp add: phones_valid_def list_all_iff)
  qed
qed

text \<open>No call of \<open>add_phone\<close> or \<open>edit_phone\<close> lets an exception escape.\<close>

lemma add_phone_returns: "\<exists>h' r' out. add_phone d h r s = Inr (h', r', out)"
  using add_phone_result [of d h r s] by blast

lemma edit_phone_returns: "\<exists>ok h' r' out. edit_phone d h r old new = Inr (ok, h', r', out)"
  using edit_phone_loop_result [of d h r "phones r" old new] unfolding edit_phone_def by blast

lemma run_op_phones_valid:
  "phones_valid d h r \<Longrightarrow> \<exists>h' r'. run_op d (h, r) x = Inr (h', r') \<and> phones_valid d h' r'"
proof (cases x)
  case (AddPhone s)
  obtain h' r' out where a: "add_phone d h r s = Inr (h', r', out)"
    using add_phone_returns by blast
  assume "phones_valid d h r"
  then have "phones_valid d h' r'" using a by (rule phones_valid_add)
  with a AddPhone show ?thesis by simp
next
  case (RemovePhone s)
  obtain ok r' out where a: "remove_phone h r s = (ok, r', out)"
    by (cases "remove_phone h r s") auto
  assume "phones_valid d h r"
  then have "phones_valid d h r'" using a by (rule phones_valid_remove)
  with a RemovePhone show ?thesis by simp
next
  case (EditPhone old new)
  obtain ok h' r' out where a: "edit_phone d h r old new = Inr (ok, h', r', out)"
    using edit_phone_returns by blast
  assume "phones_valid d h r"
  then have "phones_valid d h' r'" using a by (rule phones_valid_edit)
  with a EditPhone show ?thesis by simp
next
  case (FindPhone s)
  assume "phones_valid d h r"
  with FindPhone show ?thesis by (simp split: prod.splits)
qed

lemma run_ops_phones_valid:
  "phones_valid d h r \<Longrightarrow> \<exists>h' r'. run_ops d (h, r) xs = Inr (h', r') \<and> phones_valid d h' r'"
proof (induction xs arbitrary: h r)
  case Nil
  then show ?case by simp
next
  case (Cons x xs)
  from run_op_phones_valid [OF Cons.prems, of x] obtain h1 r1 where
    1: "run_op d (h, r) x = Inr (h1, r1)" and 2: "phones_valid d h1 r1" by blast
  from Cons.IH [OF 2] 1 show ?case by simp
qed

lemma Record_init_phones:
  "Record_init n = Inr r \<Longrightarrow> phones r = [] \<and> value_f (name r) = n \<and> n \<noteq> []"
  by (auto simp: Record_init_def Name_def Field_init_def split: if_splits sum.splits)

lemma john_ops_eval:
  "run_ops ascii_digit ([], john_new) john_ops = Inr (john_store_edited, john\<lparr>phones := [0]\<rparr>)"
  by (simp add: john_ops_def john_new_def john_def john_store_edited_def add_phone_def
      edit_phone_def remove_phone_def find_phone_def Phone_def Field_init_def
      fullmatch_digits_iff py_def ascii_digit_def)

text \<open>
  Claim C9. A Record is constructed from a name (with no phone) in any store; after any
  sequence of calls of \<open>add_phone\<close>, \<open>remove_phone\<close>, \<open>edit_phone\<close> and \<open>find_phone\<close>
  on it (no call lets an exception escape, so the sequence runs to its end) every Phone
  in \<open>phones\<close> is an object of the store whose value is exactly 10 digit characters.
\<close>

theorem stored_phones_are_valid:
  "Record_init n = Inr r0 \<longrightarrow>
     (\<exists>h r. run_ops d (h0, r0) xs = Inr (h, r)
        \<and> (\<forall>p\<in>set (phones r). p < length h \<and> length (value_f (h ! p)) = 10
               \<and> (\<forall>c\<in>set (value_f (h ! p)). d c)))"
proof
  assume "Record_init n = Inr r0"
  then have "phones_valid d h0 r0" by (simp add: phones_valid_def Record_init_phones)
  from run_ops_phones_valid [OF this, of xs] show
    "\<exists>h r. run_ops d (h0, r0) xs = Inr (h, r)
        \<and> (\<forall>p\<in>set (phones r). p < length h \<and> length (value_f (h ! p)) = 10
               \<and> (\<forall>c\<in>set (value_f (h ! p)). d c))"
    by (simp add: phones_valid_def list_all_iff)
qed

theorem stored_phones_are_valid_witness:
  "Record_init (py ''John'') = Inr john_new
   \<and> run_ops ascii_digit ([], john_new) john_ops = Inr (john_store_edited, john\<lparr>phones := [0]\<rparr>)
   \<and> phones (john\<lparr>phones := [0]\<rparr>) = [0]
   \<and> 0 < length john_store_edited
   \<and> length (value_f (john_store_edited ! 0)) = 10
   \<and> list_all ascii_digit (value_f (john_store_edited ! 0))"
proof -
  have i: "Record_init (py ''John'') = Inr john_new"
    by (simp add: Record_init_def Name_def Field_init_def john_new_def py_def)
  from stored_phones_are_valid [of "py ''John''" john_new ascii_digit "[]" john_ops] i
  obtain h r where
    1: "run_ops ascii_digit ([], john_new) john_ops = Inr (h, r)" and
    2: "\<forall>p\<in>set (phones r). p < length h \<and> length (value_f (h ! p)) = 10
               \<and> (\<forall>c\<in>set (value_f (h ! p)). ascii_digit c)"
    by blast
  from 1 have h: "h = john_store_edited" and r: "r = john\<lparr>phones := [0]\<rparr>"
    by (simp_all add: john_ops_eval)
  from 2 have "0 < length john_store_edited \<and> length (value_f (john_store_edited ! 0)) = 10
     \<and> list_all ascii_digit (value_f (john_store_edited ! 0))"
    by (simp add: h r list_all_iff)
  with i john_ops_eval show ?thesis by simp
qed

text \<open>
  Well-formedness is an invariant too: a Record is well formed when constructed, and
  every method keeps it so.
\<close>

lemma well_formed_add:
  assumes "well_formed h r" and "add_phone d h r s = Inr (h', r', out)"
  shows "well_formed h' r'"
  using add_phone_result [of d h r s] assms
  by (fastforce simp: well_formed_def list_all_iff less_Suc_eq)

lemma well_formed_remove:
  assumes "well_formed h r" and "remove_phone h r s = (ok, r', out)"
  shows "well_formed h r'"
  using remove_phone_loop_result [of h r "phones r" s] assms
  by (auto simp: remove_phone_def well_formed_def list_all_iff dest: notin_set_remove1)

lemma well_formed_edit:
  assumes "well_formed h r" and "edit_phone d h r old new = Inr (ok, h', r', out)"
  shows "well_formed h' r'"
  using edit_phone_loop_result [of d h r "phones r" old new] assms
  by (fastforce simp: edit_phone_def well_formed_def list_all_iff less_Suc_eq)

lemma run_op_well_formed:
  "well_formed h r \<Longrightarrow> run_op d (h, r) x = Inr (h', r') \<Longrightarrow> well_formed h' r'"
  by (cases x)
     (auto split: sum.splits prod.splits
           dest: well_formed_add well_formed_remove well_formed_edit)

lemma run_ops_well_formed:
  "well_formed h r \<Longrightarrow> run_ops d (h, r) xs = Inr (h', r') \<Longrightarrow> well_formed h' r'"
proof (induction xs arbitrary: h r)
  case Nil
  then show ?case by simp
next
  case (Cons x xs)
  from Cons.prems(2) obtain h1 r1 where
    1: "run_op d (h, r) x = Inr (h1, r1)" and 2: "run_ops d (h1, r1) xs = Inr (h', r')"
    by (auto split: sum.splits)
  from Cons.prems(1) 1 have "well_formed h1 r1" by (rule run_op_well_formed)
  then show ?case using 2 by (rule Cons.IH)
qed

lemma new_record_well_formed: "Record_init n = Inr r \<Longrightarrow> well_formed h r"
  by (simp add: well_formed_def Record_init_phones)

lemma reachable_well_formed:
  "Record_init n = Inr r0 \<Longrightarrow> run_ops d (h0, r0) xs = Inr (h, r) \<Longrightarrow> well_formed h r"
  using new_record_well_formed run_ops_well_formed by blast

section \<open>The methods of AddressBook\<close>

text \<open>
  Claim C5. For every AddressBook and Record \<open>r\<close>, \<open>add_record\<close> stores \<open>r\<close> under
  the key \<open>r.name.value\<close>: \<open>find\<close> with that name right after returns \<open>r\<close>, whose
  rendered form is the rendered form of \<open>r\<close>; the keys are those of before and that
  name, every other key keeps its record, and a record stored under the same name before
  is overwritten (the book is the one it would be had that record never been added).
  \<open>add_record\<close> prints nothing and raises nothing.
\<close>

theorem add_record_then_find:
  "find_record (add_record b r) (value_f (name r)) = Some r
   \<and> map_option (Record_str h) (find_record (add_record b r) (value_f (name r)))
        = Some (Record_str h r)
   \<and> dom (data (add_record b r)) = insert (value_f (name r)) (dom (data b))
   \<and> (\<forall>k. k \<noteq> value_f (name r) \<longrightarrow> find_record (add_record b r) k = find_record b k)
   \<and> (\<forall>r0. value_f (name r0) = value_f (name r) \<longrightarrow>
         add_record (add_record b r0) r = add_record b r)"
  by (auto simp: add_record_def find_record_def)

theorem add_record_then_find_witness:
  "find_record (add_record (add_record AddressBook_init jane) john) (py ''John'') = Some john
   \<and> py ''Jane'' \<noteq> py ''John''
   \<and> find_record (add_record (add_record AddressBook_init jane) john) (py ''Jane'') = Some jane
   \<and> value_f (name john_new) = value_f (name john)
   \<and> find_record (add_record (add_record AddressBook_init john_new) john) (py ''John'') = Some john
   \<and> add_record (add_record AddressBook_init john_new) john = add_record AddressBook_init john
   \<and> map_option (Record_str driver_store)
         (find_record (add_record (add_record AddressBook_init john) jane) (py ''Jane''))
        = Some (py ''Contact name: Jane, phones: 9876543210'')"
proof -
  note t = add_record_then_find [of _ john]
  have n: "value_f (name john) = py ''John''" by (simp add: john_def)
  have ne: "py ''Jane'' \<noteq> py ''John''" by (simp add: py_def)
  have o: "value_f (name john_new) = value_f (name john)" by (simp add: john_def john_new_def)
  have j: "find_record (add_record AddressBook_init jane) (py ''Jane'') = Some jane"
    by (simp add: find_record_def add_record_def jane_def)
  from t [of "add_record AddressBook_init jane"] n
  have 1: "find_record (add_record (add_record AddressBook_init jane) john) (py ''John'') = Some john"
    by simp
  from t [of "add_record AddressBook_init jane"] n ne j
  have 2: "find_record (add_record (add_record AddressBook_init jane) john) (py ''Jane'') = Some jane"
    by simp
  from t [of AddressBook_init] o
  have 3: "add_record (add_record AddressBook_init john_new) john = add_record AddressBook_init john"
    by blast
  from t [of "add_record AddressBook_init john_new"] n
  have 4: "find_record (add_record (add_record AddressBook_init john_new) john) (py ''John'') = Some john"
    by simp
  have "Record_str driver_store jane = py ''Contact name: Jane, phones: 9876543210''"
    by (simp add: Record_str_def phone_values_def jane_def driver_store_def john_store_def py_def)
  with add_record_then_find [of "add_record AddressBook_init john" jane driver_store]
  have 5: "map_option (Record_str driver_store)
         (find_record (add_record (add_record AddressBook_init john) jane) (py ''Jane''))
        = Some (py ''Contact name: Jane, phones: 9876543210'')"
    by (simp add: jane_def)
  from 1 ne 2 o 4 3 5 show ?thesis by blast
qed

text \<open>
  Claim C6. For every AddressBook and name: when the name is not a key, \<open>delete\<close>
  prints "Record not found" and returns the book as it was (the same entries, hence the
  same number of them); when the name is a key, \<open>delete\<close> prints nothing and removes
  that entry and no other.
\<close>

theorem delete_absent_or_present:
  "(n \<notin> dom (data b) \<longrightarrow>
        delete b n = (b, [py ''Record not found''])
        \<and> card (dom (data (fst (delete b n)))) = card (dom (data b)))
   \<and> (n \<in> dom (data b) \<longrightarrow>
        snd (delete b n) = []
        \<and> find_record (fst (delete b n)) n = None
        \<and> dom (data (fst (delete b n))) = dom (data b) - {n}
        \<and> (\<forall>k. k \<noteq> n \<longrightarrow> find_record (fst (delete b n)) k = find_record b k))"
  by (auto simp: delete_def find_record_def)

theorem delete_absent_or_present_witness:
  "py ''Nobody'' \<notin> dom (data (add_record (add_record AddressBook_init john) jane))
   \<and> delete (add_record (add_record AddressBook_init john) jane) (py ''Nobody'')
       = (add_record (add_record AddressBook_init john) jane, [py ''Record not found''])
   \<and> py ''Jane'' \<in> dom (data (add_record (add_record AddressBook_init john) jane))
   \<and> snd (delete (add_record (add_record AddressBook_init john) jane) (py ''Jane'')) = []
   \<and> find_record (fst (delete (add_record (add_record AddressBook_init john) jane) (py ''Jane'')))
        (py ''Jane'') = None
   \<and> py ''John'' \<noteq> py ''Jane''
   \<and> find_record (fst (delete (add_record (add_record AddressBook_init john) jane) (py ''Jane'')))
        (py ''John'') = Some john"
proof -
  let ?b = "add_record (add_record AddressBook_init john) jane"
  have d: "dom (data ?b) = {py ''John'', py ''Jane''}"
    by (auto simp: add_record_def AddressBook_init_def john_def jane_def)
  have a: "py ''Nobody'' \<notin> dom (data ?b)" unfolding d by (simp add: py_def)
  have p: "py ''Jane'' \<in> dom (data ?b)" unfolding d by simp
  have ne: "py ''John'' \<noteq> py ''Jane''" by (simp add: py_def)
  have j: "find_record ?b (py ''John'') = Some john"
    using ne by (simp add: find_record_def add_record_def john_def jane_def)
  from delete_absent_or_present [of "py ''Nobody''" ?b] a
  have 1: "delete ?b (py ''Nobody'') = (?b, [py ''Record not found''])" by blast
  from delete_absent_or_present [of "py ''Jane''" ?b] p ne j
  have 2: "snd (delete ?b (py ''Jane'')) = []"
    and 3: "find_record (fst (delete ?b (py ''Jane''))) (py ''Jane'') = None"
    and 4: "find_record (fst (delete ?b (py ''Jane''))) (py ''John'') = Some john"
    by simp_all
  from a 1 p 2 3 ne 4 show ?thesis by blast
qed

lemma keyed_by_name_step: "keyed_by_name b \<Longrightarrow> keyed_by_name (run_book_op b x)"
  by (cases x)
     (auto simp: keyed_by_name_def add_record_def delete_def find_record_def split: option.splits)

lemma keyed_by_name_run: "keyed_by_name b \<Longrightarrow> keyed_by_name (run_book_ops b xs)"
  unfolding run_book_ops_def
  by (induction xs arbitrary: b) (simp_all add: keyed_by_name_step)

lemma keyed_by_name_init: "keyed_by_name AddressBook_init"
  by (simp add: keyed_by_name_def AddressBook_init_def)

lemma book_ops_eval:
  "find_record (run_book_ops AddressBook_init book_ops) (py ''John'') = Some john"
  by (simp add: run_book_ops_def book_ops_def add_record_def delete_def find_record_def
      AddressBook_init_def john_def john_new_def jane_def py_def)

text \<open>
  Claim C10. An AddressBook is constructed empty; after any sequence of calls of
  \<open>add_record\<close>, \<open>find\<close> and \<open>delete\<close> on it, every record it holds is stored under
  its own name: the record found under a key \<open>k\<close> has the name \<open>k\<close>.
\<close>

theorem records_keyed_by_own_name:
  "find_record (run_book_ops AddressBook_init xs) k = Some r \<longrightarrow> value_f (name r) = k"
  using keyed_by_name_run [OF keyed_by_name_init, of xs]
  by (simp add: keyed_by_name_def find_record_def)

theorem records_keyed_by_own_name_witness:
  "find_record (run_book_ops AddressBook_init book_ops) (py ''John'') = Some john
   \<and> value_f (name john) = py ''John''"
  using records_keyed_by_own_name [of book_ops "py ''John''" john] book_ops_eval
  by simp

end
